theory Spec2Isabelle
  imports Complex_Main "HOL-Library.Word"
begin

section \<open>JavaScript strings and arrays\<close>

text \<open>
  A JavaScript string is a sequence of UTF-16 code units. String literals of the source
  are ASCII, so \<open>js\<close> embeds an Isabelle literal code unit by code unit.
\<close>

type_synonym code_unit = "16 word"
type_synonym js_string = "code_unit list"

definition js :: "string \<Rightarrow> js_string" where
  "js s = map of_char s"

text \<open>
  The characters matched by \<^verbatim>\<open>\s\<close> in a regular expression and stripped by
  \<^verbatim>\<open>String.prototype.trim\<close>: ECMAScript WhiteSpace and LineTerminator.
\<close>

definition is_space :: "code_unit \<Rightarrow> bool" where
  "is_space c \<longleftrightarrow>
     c = 0x09 \<or> c = 0x0A \<or> c = 0x0B \<or> c = 0x0C \<or> c = 0x0D \<or> c = 0x20 \<or> c = 0xA0 \<or>
     c = 0x1680 \<or> (0x2000 \<le> c \<and> c \<le> 0x200A) \<or> c = 0x2028 \<or> c = 0x2029 \<or>
     c = 0x202F \<or> c = 0x205F \<or> c = 0x3000 \<or> c = 0xFEFF"

definition trim :: "js_string \<Rightarrow> js_string" where
  "trim s = rev (dropWhile is_space (rev (dropWhile is_space s)))"

text \<open>\<^verbatim>\<open>s.split('\n')\<close>: the result always has at least one element.\<close>

fun split_nl :: "js_string \<Rightarrow> js_string list" where
  "split_nl [] = [[]]"
| "split_nl (c # cs) =
     (if c = 0x0A then [] # split_nl cs
      else (case split_nl cs of [] \<Rightarrow> [[c]] | l # ls \<Rightarrow> (c # l) # ls))"

definition startsWith :: "js_string \<Rightarrow> js_string \<Rightarrow> bool" where
  "startsWith s p \<longleftrightarrow> take (length p) s = p"

definition endsWith :: "js_string \<Rightarrow> js_string \<Rightarrow> bool" where
  "endsWith s p \<longleftrightarrow> length p \<le> length s \<and> drop (length s - length p) s = p"

text \<open>
  \<^verbatim>\<open>xs.slice(start, fin)\<close> with integer arguments: a negative index counts from the
  end, and both are clamped to the array.
\<close>

definition slice :: "'a list \<Rightarrow> int \<Rightarrow> int \<Rightarrow> 'a list" where
  "slice xs start fin =
     (let len = int (length xs);
          k = (if start < 0 then max (len + start) 0 else min start len);
          final = (if fin < 0 then max (len + fin) 0 else min fin len)
      in take (nat (final - k)) (drop (nat k) xs))"

text \<open>
  Reading an array: \<^verbatim>\<open>xs[i]\<close> and Obsidian's \<^verbatim>\<open>xs.last()\<close> are
  \<^verbatim>\<open>undefined\<close> (here \<open>None\<close>) out of range; calling a method on that value throws.
\<close>

definition array_get :: "'a list \<Rightarrow> nat \<Rightarrow> 'a option" where
  "array_get xs i = (if i < length xs then Some (xs ! i) else None)"

definition array_last :: "'a list \<Rightarrow> 'a option" where
  "array_last xs = (case rev xs of [] \<Rightarrow> None | x # _ \<Rightarrow> Some x)"

text \<open>
  \<^verbatim>\<open>xs.includes(v)\<close> for an array of strings and a value that is a string or
  \<^verbatim>\<open>undefined\<close>: exact comparison, and \<^verbatim>\<open>undefined\<close> is never an element.
\<close>

definition array_includes :: "js_string list \<Rightarrow> js_string option \<Rightarrow> bool" where
  "array_includes xs v \<longleftrightarrow> v \<in> Some ` set xs"

text \<open>String conversion of a value that is a string or \<^verbatim>\<open>undefined\<close>.\<close>

definition ToString :: "js_string option \<Rightarrow> js_string" where
  "ToString v = (case v of None \<Rightarrow> js ''undefined'' | Some s \<Rightarrow> s)"

datatype js_error = TypeError

section \<open>Regular expressions with named groups\<close>

text \<open>
  A backtracking matcher for the fragment of the regular expression language that the
  source uses. A matcher state is the current index and the captures so far; \<open>rmatch\<close>
  returns every way to match, in the priority order of a backtracking engine (a greedy
  quantifier tries the longest repetition first, an optional group is tried before it is
  skipped), so the head of the list is the match that JavaScript reports.
\<close>

type_synonym captures = "string \<Rightarrow> js_string option"
type_synonym mstate = "nat \<times> captures"

datatype regex =
    Bol
  | Lit code_unit
  | Many0 "code_unit \<Rightarrow> bool"
  | Many1 "code_unit \<Rightarrow> bool"
  | Seq regex regex
  | Opt regex
  | Group string regex

primrec rmatch :: "regex \<Rightarrow> js_string \<Rightarrow> mstate \<Rightarrow> mstate list" where
  "rmatch Bol s st = (if fst st = 0 then [st] else [])"
| "rmatch (Lit c) s st =
     (if fst st < length s \<and> s ! fst st = c then [(Suc (fst st), snd st)] else [])"
| "rmatch (Many0 p) s st =
     map (\<lambda>k. (fst st + k, snd st)) (rev [0..<Suc (length (takeWhile p (drop (fst st) s)))])"
| "rmatch (Many1 p) s st =
     map (\<lambda>k. (fst st + k, snd st)) (rev [1..<Suc (length (takeWhile p (drop (fst st) s)))])"
| "rmatch (Seq a b) s st = concat (map (rmatch b s) (rmatch a s st))"
| "rmatch (Opt a) s st = filter (\<lambda>st'. fst st' \<noteq> fst st) (rmatch a s st) @ [st]"
| "rmatch (Group n a) s st =
     map (\<lambda>st'. (fst st', (snd st')(n := Some (take (fst st' - fst st) (drop (fst st) s)))))
       (rmatch a s st)"

fun first_some :: "'a option list \<Rightarrow> 'a option" where
  "first_some [] = None"
| "first_some (None # xs) = first_some xs"
| "first_some (Some x # xs) = Some x"

definition no_captures :: captures where
  "no_captures = (\<lambda>_. None)"

definition match_at :: "regex \<Rightarrow> js_string \<Rightarrow> nat \<Rightarrow> mstate option" where
  "match_at r s i = (case rmatch r s (i, no_captures) of [] \<Rightarrow> None | st # _ \<Rightarrow> Some st)"

text \<open>
  \<^verbatim>\<open>RegExp.prototype.exec\<close> without the global flag: the start positions are tried
  from index 0 on, and the first one that matches wins.
\<close>

definition regex_exec :: "regex \<Rightarrow> js_string \<Rightarrow> captures option" where
  "regex_exec r s = map_option snd (first_some (map (match_at r s) [0..<Suc (length s)]))"

text \<open>\<^verbatim>\<open>s.match(r)\<close>: \<open>None\<close> is \<^verbatim>\<open>null\<close>, otherwise the named groups.\<close>

definition String_match :: "js_string \<Rightarrow> regex \<Rightarrow> captures option" where
  "String_match s r = regex_exec r s"

text \<open>The character classes \<^verbatim>\<open>[^\s^{]\<close> and \<^verbatim>\<open>[^}]\<close>.\<close>

definition class_lang :: "code_unit \<Rightarrow> bool" where
  "class_lang c \<longleftrightarrow> \<not> (is_space c \<or> c = of_char CHR ''^'' \<or> c = of_char CHR ''{'')"

definition class_label :: "code_unit \<Rightarrow> bool" where
  "class_label c \<longleftrightarrow> \<not> (c = of_char CHR ''}'')"

text \<open>
  \<^verbatim>\<open>/^```(?<lang>[^\s^{]+)?\s*(?:{(?<label>[^}]+)})?/\<close>
\<close>

definition REGEX_FENCED_CODEBLOCK_START :: regex where
  "REGEX_FENCED_CODEBLOCK_START =
     Seq Bol (Seq (Lit (of_char CHR ''`'')) (Seq (Lit (of_char CHR ''`'')) (Seq (Lit (of_char CHR ''`''))
       (Seq (Opt (Group ''lang'' (Many1 class_lang)))
         (Seq (Many0 is_space)
           (Opt (Seq (Lit (of_char CHR ''{''))
                  (Seq (Group ''label'' (Many1 class_label)) (Lit (of_char CHR ''}''))))))))))"

section \<open>Settings\<close>

record CBLSettings =
  ignoreLanguages :: "js_string option"
  showLanguageAsLabel :: bool

definition DEFAULT_SETTINGS :: CBLSettings where
  "DEFAULT_SETTINGS =
     \<lparr> ignoreLanguages = Some (js ''dataview'' @ [0x0A] @ js ''dataviewjs'' @ [0x0A] @ js ''tasks''),
       showLanguageAsLabel = True \<rparr>"

text \<open>
  \<open>loadData\<close> resolves to whatever JSON value was persisted, or \<^verbatim>\<open>null\<close>. A number
  is kept by its value; the sign of zero is not kept, nothing here depends on it.
\<close>

datatype js_value =
    JNull
  | JBool bool
  | JNumber rat
  | JString js_string
  | JArray "js_value list"
  | JObject "(js_string \<times> js_value) list"

text \<open>Truthiness of a value that is a JSON value or \<^verbatim>\<open>undefined\<close> (here \<open>None\<close>).\<close>

fun truthy :: "js_value option \<Rightarrow> bool" where
  "truthy None = False"
| "truthy (Some JNull) = False"
| "truthy (Some (JBool b)) = b"
| "truthy (Some (JNumber n)) = (n \<noteq> 0)"
| "truthy (Some (JString s)) = (s \<noteq> [])"
| "truthy (Some (JArray _)) = True"
| "truthy (Some (JObject _)) = True"

fun digit_of :: "nat \<Rightarrow> code_unit" where
  "digit_of n = of_nat (48 + n mod 10)"

fun decimal :: "nat \<Rightarrow> js_string" where
  "decimal n = (if n < 10 then [digit_of n] else decimal (n div 10) @ [digit_of n])"

text \<open>When a key is written more than once in a JSON object, the last value is the one kept.\<close>

fun last_wins :: "('k \<times> 'v) list \<Rightarrow> ('k \<times> 'v) list" where
  "last_wins [] = []"
| "last_wins ((k, v) # kvs) = (if k \<in> fst ` set kvs then last_wins kvs else (k, v) # last_wins kvs)"

text \<open>
  The own enumerable properties that \<^verbatim>\<open>Object.assign\<close> copies from a source:
  none for \<^verbatim>\<open>null\<close>, booleans and numbers, the indices of a string or an array,
  the members of an object. The keys are distinct, so the order in which they are copied
  makes no difference.
\<close>

fun own_properties :: "js_value \<Rightarrow> (js_string \<times> js_value) list" where
  "own_properties JNull = []"
| "own_properties (JBool _) = []"
| "own_properties (JNumber _) = []"
| "own_properties (JString s) = zip (map decimal [0..<length s]) (map (\<lambda>c. JString [c]) s)"
| "own_properties (JArray xs) = zip (map decimal [0..<length xs]) xs"
| "own_properties (JObject kvs) = last_wins kvs"

text \<open>
  An object at run time: its own properties and its prototype, which is
  \<^verbatim>\<open>Object.prototype\<close> unless an assignment to \<^verbatim>\<open>__proto__\<close> has replaced it by
  \<^verbatim>\<open>null\<close> or by an object or array that was loaded.
\<close>

datatype prototype = ObjectPrototype | NullPrototype | ValuePrototype js_value

record js_object =
  own :: "js_string \<rightharpoonup> js_value"
  proto :: prototype

definition empty_object :: js_object where
  "empty_object = \<lparr> own = Map.empty, proto = ObjectPrototype \<rparr>"

text \<open>
  Whether an assignment to \<^verbatim>\<open>__proto__\<close> finds the accessor of \<^verbatim>\<open>Object.prototype\<close>
  along the prototype chain: not when the chain ends in \<^verbatim>\<open>null\<close>, and not when a
  loaded object on the chain has a data property of that name itself.
\<close>

fun inherits_proto_setter :: "prototype \<Rightarrow> bool" where
  "inherits_proto_setter ObjectPrototype = True"
| "inherits_proto_setter NullPrototype = False"
| "inherits_proto_setter (ValuePrototype v) = (js ''__proto__'' \<notin> fst ` set (own_properties v))"

text \<open>
  The assignment \<^verbatim>\<open>obj[k] = v\<close>. It creates or overwrites an own property, except that an
  assignment to \<^verbatim>\<open>__proto__\<close> that reaches the accessor replaces the prototype when the
  value is an object, an array or \<^verbatim>\<open>null\<close>, and does nothing for any other value.
\<close>

definition property_set :: "js_object \<Rightarrow> js_string \<Rightarrow> js_value \<Rightarrow> js_object" where
  "property_set obj k v =
     (if k = js ''__proto__'' \<and> own obj k = None \<and> inherits_proto_setter (proto obj)
      then (case v of
              JNull \<Rightarrow> obj \<lparr> proto := NullPrototype \<rparr>
            | JArray _ \<Rightarrow> obj \<lparr> proto := ValuePrototype v \<rparr>
            | JObject _ \<Rightarrow> obj \<lparr> proto := ValuePrototype v \<rparr>
            | _ \<Rightarrow> obj)
      else obj \<lparr> own := (own obj)(k \<mapsto> v) \<rparr>)"

text \<open>
  The read \<^verbatim>\<open>obj[k]\<close>, for a name \<open>k\<close> other than \<^verbatim>\<open>length\<close> that the built-in
  prototypes do not define (the two settings fields are such names): an own property,
  otherwise a property of a loaded object or array that is the prototype, otherwise
  \<^verbatim>\<open>undefined\<close>.
\<close>

definition property_get :: "js_object \<Rightarrow> js_string \<Rightarrow> js_value option" where
  "property_get obj k =
     (case own obj k of
        Some v \<Rightarrow> Some v
      | None \<Rightarrow> (case proto obj of
                   ValuePrototype p \<Rightarrow> map_of (own_properties p) k
                 | _ \<Rightarrow> None))"

definition Object_assign :: "js_object \<Rightarrow> js_value list \<Rightarrow> js_object" where
  "Object_assign target sources =
     fold (\<lambda>src tgt. fold (\<lambda>(k, v) obj. property_set obj k v) (own_properties src) tgt)
       sources target"

text \<open>A settings object as a JavaScript value: an optional field that is unset is absent.\<close>

definition settings_object :: "CBLSettings \<Rightarrow> js_value" where
  "settings_object st =
     JObject ((case ignoreLanguages st of
                 None \<Rightarrow> []
               | Some s \<Rightarrow> [(js ''ignoreLanguages'', JString s)])
              @ [(js ''showLanguageAsLabel'', JBool (showLanguageAsLabel st))])"

text \<open>
  \<^verbatim>\<open>this.settings = Object.assign({}, DEFAULT_SETTINGS, await this.loadData())\<close>,
  as a function of the loaded data. Nothing checks the loaded data against the declared
  type of the settings.
\<close>

definition loadSettings :: "js_value \<Rightarrow> js_object" where
  "loadSettings data = Object_assign empty_object [settings_object DEFAULT_SETTINGS, data]"

text \<open>
  The object \<^verbatim>\<open>this.settings\<close> when it has its declared type: exactly the fields of
  the record.
\<close>

definition typed_settings :: "CBLSettings \<Rightarrow> js_object" where
  "typed_settings st =
     \<lparr> own = map_of (own_properties (settings_object st)), proto = ObjectPrototype \<rparr>"

section \<open>The rendered output and the render context\<close>

datatype node = TextNode js_string | ElementNode HTMLElement
and HTMLElement =
  HTMLElement (localName: js_string) (classList: "js_string list")
    (dataset: "(js_string \<times> js_string) list") (childNodes: "node list")

fun is_code :: "node \<Rightarrow> bool" where
  "is_code (TextNode _) = False"
| "is_code (ElementNode e) = (localName e = js ''code'')"

text \<open>
  \<^verbatim>\<open>el.querySelector('pre > code')\<close> is not \<^verbatim>\<open>null\<close>: some descendant of the element
  is a \<open>code\<close> element whose parent is a \<open>pre\<close> element.
\<close>

fun has_pre_code_node :: "node \<Rightarrow> bool" and querySelector_pre_code :: "HTMLElement \<Rightarrow> bool" where
  "has_pre_code_node (TextNode _) = False"
| "has_pre_code_node (ElementNode e) = querySelector_pre_code e"
| "querySelector_pre_code (HTMLElement t cl ds cs) =
     ((t = js ''pre'' \<and> (\<exists>c \<in> set cs. is_code c)) \<or> (\<exists>c \<in> set cs. has_pre_code_node c))"

definition createElement :: "js_string \<Rightarrow> HTMLElement" where
  "createElement t = HTMLElement t [] [] []"

fun addClass :: "HTMLElement \<Rightarrow> js_string \<Rightarrow> HTMLElement" where
  "addClass (HTMLElement t cl ds cs) c = HTMLElement t (if c \<in> set cl then cl else cl @ [c]) ds cs"

fun setText :: "HTMLElement \<Rightarrow> js_string \<Rightarrow> HTMLElement" where
  "setText (HTMLElement t cl ds cs) s = HTMLElement t cl ds (if s = [] then [] else [TextNode s])"

fun prepend :: "HTMLElement \<Rightarrow> HTMLElement \<Rightarrow> HTMLElement" where
  "prepend (HTMLElement t cl ds cs) child = HTMLElement t cl ds (ElementNode child # cs)"

fun assoc_set :: "('k \<times> 'v) list \<Rightarrow> 'k \<Rightarrow> 'v \<Rightarrow> ('k \<times> 'v) list" where
  "assoc_set [] k v = [(k, v)]"
| "assoc_set ((k', v') # kvs) k v = (if k' = k then (k, v) # kvs else (k', v') # assoc_set kvs k v)"

text \<open>
  \<^verbatim>\<open>el.dataset[k] = v\<close>: a data attribute holds a string, the assigned value is
  converted to one.
\<close>

fun dataset_assign :: "HTMLElement \<Rightarrow> js_string \<Rightarrow> js_string option \<Rightarrow> HTMLElement" where
  "dataset_assign (HTMLElement t cl ds cs) k v = HTMLElement t cl (assoc_set ds k (ToString v)) cs"

record MarkdownSectionInfo =
  section_text :: js_string
  lineStart :: int
  lineEnd :: int

datatype MarkdownRenderChild = MarkdownRenderChild (containerEl: HTMLElement)

text \<open>
  The context of one invocation: what \<^verbatim>\<open>ctx.getSectionInfo(el)\<close> answers for the
  element being processed, and the children registered with \<^verbatim>\<open>ctx.addChild\<close>.
\<close>

record MarkdownPostProcessorContext =
  getSectionInfo :: "MarkdownSectionInfo option"
  children :: "MarkdownRenderChild list"

text \<open>Everything one invocation can change: the element, the context and the console.\<close>

record render_state =
  el :: HTMLElement
  ctx :: MarkdownPostProcessorContext
  console :: "js_string list"

section \<open>The post processor\<close>

text \<open>
  The list \<^verbatim>\<open>ignoreLanguages\<close> of the source. An unset or falsy setting gives the
  empty list; on any other value \<^verbatim>\<open>trim\<close> is called, which only a string has.
\<close>

definition ignore_list :: "js_object \<Rightarrow> js_error + js_string list" where
  "ignore_list settings =
     (let v = property_get settings (js ''ignoreLanguages'') in
      if truthy v
      then (case v of
              Some (JString s) \<Rightarrow> Inr (split_nl (trim s))
            | _ \<Rightarrow> Inl TypeError)
      else Inr [])"

text \<open>The array \<^verbatim>\<open>lines\<close> of the source.\<close>

definition section_lines :: "MarkdownSectionInfo \<Rightarrow> js_string list" where
  "section_lines section =
     slice (map trim (split_nl (section_text section))) (lineStart section) (lineEnd section + 1)"

text \<open>Creating the label element, and the four statements that attach it.\<close>

definition create_label :: "js_string \<Rightarrow> HTMLElement" where
  "create_label labelText = setText (addClass (createElement (js ''p'')) (js ''codeblock-label'')) labelText"

definition apply_label :: "js_string \<Rightarrow> js_string option \<Rightarrow> render_state \<Rightarrow> render_state" where
  "apply_label labelText language w =
     (let label = create_label labelText
      in w \<lparr> el := dataset_assign (addClass (prepend (el w) label) (js ''labeled-codeblock''))
                    (js ''language'') language,
             ctx := (ctx w) \<lparr> children := children (ctx w) @ [MarkdownRenderChild label] \<rparr> \<rparr>)"

definition markdownPostProcessor :: "js_object \<Rightarrow> render_state \<Rightarrow> js_error + render_state" where
  "markdownPostProcessor settings w =
     (case ignore_list settings of
        Inl e \<Rightarrow> Inl e
      | Inr ignored \<Rightarrow>
      if \<not> querySelector_pre_code (el w) then Inr w
      else case getSectionInfo (ctx w) of
        None \<Rightarrow> Inr w
      | Some section \<Rightarrow>
          let lines = section_lines section in
          if length lines < 2 then Inr w
          else case array_get lines 0 of
            None \<Rightarrow> Inl TypeError
          | Some first \<Rightarrow>
              if \<not> startsWith first (js ''```'') then Inr w
              else case array_last lines of
                None \<Rightarrow> Inl TypeError
              | Some final \<Rightarrow>
                  if \<not> endsWith final (js ''```'') then Inr w
                  else case String_match first REGEX_FENCED_CODEBLOCK_START of
                    None \<Rightarrow> Inr w
                  | Some groups \<Rightarrow>
                      let language = groups ''lang'' in
                      if array_includes ignored language
                      then Inr (w \<lparr> console := console w @ [js ''ignoring '' @ ToString language] \<rparr>)
                      else
                        let labelText = groups ''label'';
                            labelText = (if labelText = None \<and>
                                            truthy (property_get settings (js ''showLanguageAsLabel''))
                                         then language else labelText)
                        in case labelText of
                             None \<Rightarrow> Inr w
                           | Some t \<Rightarrow> Inr (apply_label t language w))"

section \<open>Closed forms and observations\<close>

text \<open>
  The two capture groups in closed form, as functions of the text \<open>r\<close> that follows the
  three backticks: the language is the longest prefix of \<open>r\<close> in the class
  \<^verbatim>\<open>[^\s^{]\<close>; the label is looked for after that prefix and the white space behind it.
\<close>

definition header_lang :: "js_string \<Rightarrow> js_string option" where
  "header_lang r = (let run = takeWhile class_lang r in if run = [] then None else Some run)"

definition header_label :: "js_string \<Rightarrow> js_string option" where
  "header_label r =
     (case dropWhile is_space (dropWhile class_lang r) of
        [] \<Rightarrow> None
      | c # t \<Rightarrow>
          if c = of_char CHR ''{'' \<and> takeWhile class_label t \<noteq> [] \<and> dropWhile class_label t \<noteq> []
          then Some (takeWhile class_label t) else None)"

text \<open>The source lines of the block span, before they are trimmed.\<close>

definition span_text :: "MarkdownSectionInfo \<Rightarrow> js_string list" where
  "span_text section =
     slice (split_nl (section_text section)) (lineStart section) (lineEnd section + 1)"

text \<open>
  Reading a decision off the rendered output: the text of the label element when the
  first child is one, and the language data attribute.
\<close>

fun label_text :: "HTMLElement \<Rightarrow> js_string option" where
  "label_text (HTMLElement t cl ds cs) =
     (case cs of
        ElementNode (HTMLElement t' cl' ds' [TextNode s]) # _ \<Rightarrow>
          if t' = js ''p'' \<and> js ''codeblock-label'' \<in> set cl' then Some s else None
      | _ \<Rightarrow> None)"

definition data_language :: "HTMLElement \<Rightarrow> js_string option" where
  "data_language e = map_of (dataset e) (js ''language'')"

text \<open>
  The decision that one run shows: \<open>None\<close> when the element is left as it was, otherwise
  the label text and the recorded language.
\<close>

definition observed_decision ::
  "render_state \<Rightarrow> js_error + render_state \<Rightarrow> (js_string option \<times> js_string option) option" where
  "observed_decision w r =
     (case r of
        Inl _ \<Rightarrow> None
      | Inr w' \<Rightarrow> if el w' = el w then None else Some (label_text (el w'), data_language (el w')))"

text \<open>Inputs for the examples: a rendered code block and a document given by its lines.\<close>

definition rendered_codeblock :: HTMLElement where
  "rendered_codeblock =
     HTMLElement (js ''div'') [] []
       [ElementNode (HTMLElement (js ''pre'') [] []
          [ElementNode (HTMLElement (js ''code'') [] [] [TextNode (js ''print(1)'')])])]"

fun document :: "string list \<Rightarrow> js_string" where
  "document [] = []"
| "document [l] = js l"
| "document (l # ls) = js l @ [0x0A] @ document ls"

definition render_of :: "HTMLElement \<Rightarrow> string list \<Rightarrow> int \<Rightarrow> int \<Rightarrow> render_state" where
  "render_of e ls a b =
     \<lparr> el = e,
       ctx = \<lparr> getSectionInfo = Some \<lparr> section_text = document ls, lineStart = a, lineEnd = b \<rparr>,
               children = [] \<rparr>,
       console = [] \<rparr>"

section \<open>The header pattern in closed form\<close>

lemma hd_concat_map:
  "xs \<noteq> [] \<Longrightarrow> f (hd xs) \<noteq> [] \<Longrightarrow> concat (map f xs) \<noteq> [] \<and> hd (concat (map f xs)) = hd (f (hd xs))"
  by (cases xs) auto

lemma rmatch_Seq_hd:
  assumes "rmatch a s st \<noteq> []" and "rmatch b s (hd (rmatch a s st)) \<noteq> []"
  shows "rmatch (Seq a b) s st \<noteq> [] \<and>
         hd (rmatch (Seq a b) s st) = hd (rmatch b s (hd (rmatch a s st)))"
  using hd_concat_map [of "rmatch a s st" "rmatch b s"] assms by simp

lemma rev_upt_Suc: "m \<le> n \<Longrightarrow> rev [m..<Suc n] = n # rev [m..<n]"
  by simp

lemma rmatch_Many0_hd:
  "rmatch (Many0 p) s (i, g) \<noteq> [] \<and>
   hd (rmatch (Many0 p) s (i, g)) = (i + length (takeWhile p (drop i s)), g)"
  by simp

lemma rmatch_Opt_nonempty: "rmatch (Opt a) s st \<noteq> []"
  by simp

lemma rmatch_lang_hd:
  "hd (rmatch (Opt (Group n (Many1 p))) s (i, g)) =
     (let run = takeWhile p (drop i s)
      in if run = [] then (i, g) else (i + length run, g(n := Some run)))"
proof (cases "takeWhile p (drop i s) = []")
  case True
  then show ?thesis by simp
next
  case False
  then have "1 \<le> length (takeWhile p (drop i s))"
    by (simp add: Suc_le_eq)
  then show ?thesis using False
    by (simp add: rev_upt_Suc Let_def takeWhile_eq_take [symmetric] del: upt_Suc)
qed

lemma concat_map_all_Nil: "(\<And>x. x \<in> set xs \<Longrightarrow> f x = []) \<Longrightarrow> concat (map f xs) = []"
  by (induction xs) auto

lemma nth_in_run:
  assumes "k < length (takeWhile p (drop j s))"
  shows "j + k < length s \<and> p (s ! (j + k))"
proof -
  let ?xs = "drop j s"
  have a: "length (takeWhile p ?xs) \<le> length ?xs" by (rule length_takeWhile_le)
  with assms have lt: "k < length ?xs" by linarith
  then have b: "j + k < length s" by simp
  have "takeWhile p ?xs ! k = ?xs ! k" using assms by (rule takeWhile_nth)
  moreover have "takeWhile p ?xs ! k \<in> set (takeWhile p ?xs)" using assms by simp
  ultimately have "p (?xs ! k)" by (metis set_takeWhileD)
  moreover have "?xs ! k = s ! (j + k)" using b by simp
  ultimately show ?thesis using b by simp
qed

lemma after_run:
  "(j + length (takeWhile p (drop j s)) < length s \<and> \<not> p (s ! (j + length (takeWhile p (drop j s)))))
     \<longleftrightarrow> dropWhile p (drop j s) \<noteq> []"
proof -
  let ?xs = "drop j s"
  let ?m = "length (takeWhile p ?xs)"
  have len: "length ?xs = ?m + length (dropWhile p ?xs)"
    by (metis length_append takeWhile_dropWhile_id)
  show ?thesis
  proof (cases "dropWhile p ?xs = []")
    case True
    with len have "?m = length ?xs" by simp
    then have "\<not> j + ?m < length s" by simp
    with True show ?thesis by simp
  next
    case False
    with len have lt: "?m < length ?xs" by simp
    then have "\<not> p (?xs ! ?m)" by (rule nth_length_takeWhile)
    moreover from lt have "j + ?m < length s" by simp
    moreover from this have "?xs ! ?m = s ! (j + ?m)" by simp
    ultimately show ?thesis using False by simp
  qed
qed

lemma rmatch_label_body:
  "rmatch (Seq (Group n (Many1 class_label)) (Lit (of_char CHR ''}''))) s (j, g) =
     (let run = takeWhile class_label (drop j s)
      in if run \<noteq> [] \<and> dropWhile class_label (drop j s) \<noteq> []
         then [(Suc (j + length run), g(n := Some run))] else [])"
proof -
  let ?run = "takeWhile class_label (drop j s)"
  let ?m = "length ?run"
  let ?f = "\<lambda>k. rmatch (Lit (of_char CHR ''}'')) s (j + k, g(n := Some (take k (drop j s))))"
  have eq: "rmatch (Seq (Group n (Many1 class_label)) (Lit (of_char CHR ''}''))) s (j, g)
        = concat (map ?f (rev [1..<Suc ?m]))"
    by (simp add: comp_def del: upt_Suc)
  have small: "?f k = []" if "k \<in> set (rev [1..<?m])" for k
  proof -
    from that have "k < ?m" by simp
    then have "class_label (s ! (j + k))" using nth_in_run by blast
    then show ?thesis by (simp add: class_label_def)
  qed
  show ?thesis
  proof (cases "?run = []")
    case True
    then show ?thesis unfolding eq by simp
  next
    case False
    then have "1 \<le> ?m" by (simp add: Suc_le_eq)
    then have "concat (map ?f (rev [1..<Suc ?m])) = ?f ?m @ concat (map ?f (rev [1..<?m]))"
      by (simp add: rev_upt_Suc del: upt_Suc)
    also have "concat (map ?f (rev [1..<?m])) = []"
      using small by (rule concat_map_all_Nil)
    finally have c1: "concat (map ?f (rev [1..<Suc ?m])) = ?f ?m" by (simp only: append_Nil2)
    have fm: "?f ?m = (if dropWhile class_label (drop j s) \<noteq> []
                            then [(Suc (j + ?m), g(n := Some ?run))] else [])"
      using after_run [of j class_label s]
      by (auto simp: class_label_def takeWhile_eq_take [symmetric])
    have res: "rmatch (Seq (Group n (Many1 class_label)) (Lit (of_char CHR ''}''))) s (j, g) =
        (if dropWhile class_label (drop j s) \<noteq> []
                            then [(Suc (j + ?m), g(n := Some ?run))] else [])"
      using eq c1 fm by (simp only:)
    show ?thesis unfolding Let_def using False by (simp only: res simp_thms)
  qed
qed

lemma rmatch_Seq_Bol: "rmatch (Seq Bol X) s (i, g) = (if i = 0 then rmatch X s (0, g) else [])"
  by simp

lemma rmatch_Seq_Lit:
  "rmatch (Seq (Lit c) X) s (i, g) =
     (if i < length s \<and> s ! i = c then rmatch X s (Suc i, g) else [])"
  by auto

lemma rmatch_label_hd:
  "hd (rmatch (Opt (Seq (Lit (of_char CHR ''{''))
                     (Seq (Group n (Many1 class_label)) (Lit (of_char CHR ''}''))))) s (i, g)) =
     (case drop i s of
        [] \<Rightarrow> (i, g)
      | c # t \<Rightarrow>
          if c = of_char CHR ''{'' \<and> takeWhile class_label t \<noteq> [] \<and> dropWhile class_label t \<noteq> []
          then (Suc (Suc i + length (takeWhile class_label t)), g(n := Some (takeWhile class_label t)))
          else (i, g))"
proof (cases "drop i s")
  case Nil
  then have "\<not> i < length s" by simp
  then show ?thesis using Nil
    by (simp only: rmatch.simps(6) rmatch_Seq_Lit) simp
next
  case (Cons c t)
  then have lt: "i < length s" by (metis drop_eq_Nil leI list.distinct(1))
  with Cons have c: "s ! i = c" and t: "drop (Suc i) s = t"
    by (metis Cons_nth_drop_Suc list.inject)+
  show ?thesis using Cons lt c t
    by (simp only: rmatch.simps(6) rmatch_Seq_Lit rmatch_label_body Let_def) simp
qed

lemma drop_run: "drop (length (takeWhile p xs)) xs = dropWhile p xs"
  by (simp add: dropWhile_eq_drop)

lemma REGEX_rmatch_fenced:
  fixes r :: js_string
  defines "s \<equiv> of_char CHR ''`'' # of_char CHR ''`'' # of_char CHR ''`'' # r"
  shows "rmatch REGEX_FENCED_CODEBLOCK_START s (0, no_captures) \<noteq> [] \<and>
         snd (hd (rmatch REGEX_FENCED_CODEBLOCK_START s (0, no_captures))) ''lang'' = header_lang r \<and>
         snd (hd (rmatch REGEX_FENCED_CODEBLOCK_START s (0, no_captures))) ''label'' = header_label r"
proof -
  let ?LANG = "Opt (Group ''lang'' (Many1 class_lang))"
  let ?WS = "Many0 is_space"
  let ?LABEL = "Opt (Seq (Lit (of_char CHR ''{''))
                     (Seq (Group ''label'' (Many1 class_label)) (Lit (of_char CHR ''}''))))"
  let ?T = "Seq ?LANG (Seq ?WS ?LABEL)"
  let ?i0 = "Suc (Suc (Suc 0))"
  let ?k = "length (takeWhile class_lang r)"
  let ?w = "length (takeWhile is_space (dropWhile class_lang r))"
  define g1 where "g1 = (if takeWhile class_lang r = [] then no_captures
                         else no_captures(''lang'' := Some (takeWhile class_lang r)))"
  have start: "rmatch REGEX_FENCED_CODEBLOCK_START s (0, no_captures) = rmatch ?T s (?i0, no_captures)"
    unfolding REGEX_FENCED_CODEBLOCK_START_def
    by (simp only: rmatch_Seq_Bol rmatch_Seq_Lit) (simp add: s_def)
  have d0: "drop ?i0 s = r" by (simp add: s_def)
  have lang: "hd (rmatch ?LANG s (?i0, no_captures)) = (?i0 + ?k, g1)"
    by (simp only: rmatch_lang_hd d0 Let_def g1_def) simp
  have d1: "drop (?i0 + ?k) s = dropWhile class_lang r"
    by (simp add: s_def drop_run)
  have ws: "hd (rmatch ?WS s (?i0 + ?k, g1)) = (?i0 + ?k + ?w, g1)"
    by (simp only: rmatch_Many0_hd d1)
  have d2: "drop (?i0 + ?k + ?w) s = dropWhile is_space (dropWhile class_lang r)"
    using d1 by (metis add.commute drop_drop drop_run)
  have n1: "rmatch (Seq ?WS ?LABEL) s st \<noteq> []" for st
    using rmatch_Seq_hd [of ?WS s st ?LABEL] rmatch_Many0_hd [of is_space s "fst st" "snd st"]
          rmatch_Opt_nonempty
    by (metis prod.collapse)
  have h1: "hd (rmatch (Seq ?WS ?LABEL) s (?i0 + ?k, g1)) = hd (rmatch ?LABEL s (?i0 + ?k + ?w, g1))"
    using rmatch_Seq_hd [of ?WS s "(?i0 + ?k, g1)" ?LABEL] rmatch_Many0_hd rmatch_Opt_nonempty ws
    by metis
  have h2: "rmatch ?T s (?i0, no_captures) \<noteq> [] \<and>
            hd (rmatch ?T s (?i0, no_captures)) = hd (rmatch ?LABEL s (?i0 + ?k + ?w, g1))"
    using rmatch_Seq_hd [of ?LANG s "(?i0, no_captures)" "Seq ?WS ?LABEL"] rmatch_Opt_nonempty n1 lang h1
    by metis
  have g1_lang: "g1 ''lang'' = header_lang r" and g1_label: "g1 ''label'' = None"
    by (simp_all add: g1_def header_lang_def no_captures_def Let_def)
  have fin: "snd (hd (rmatch ?LABEL s (?i0 + ?k + ?w, g1))) ''lang'' = header_lang r \<and>
             snd (hd (rmatch ?LABEL s (?i0 + ?k + ?w, g1))) ''label'' = header_label r"
  proof -
    have "snd (case xs of [] \<Rightarrow> (i, g1)
               | c # t \<Rightarrow> if P c t then (j t, g1(''label'' := Some (v t))) else (i, g1)) ''lang''
            = header_lang r \<and>
          snd (case xs of [] \<Rightarrow> (i, g1)
               | c # t \<Rightarrow> if P c t then (j t, g1(''label'' := Some (v t))) else (i, g1)) ''label''
            = (case xs of [] \<Rightarrow> None | c # t \<Rightarrow> if P c t then Some (v t) else None)"
      for xs :: js_string and i :: nat and P j v
      by (cases xs) (simp_all add: g1_lang g1_label)
    then show ?thesis
      by (simp only: rmatch_label_hd d2 header_label_def)
  qed
  show ?thesis using start h2 fin by (simp only: simp_thms)
qed

lemma match_at_pos_None: "0 < i \<Longrightarrow> match_at REGEX_FENCED_CODEBLOCK_START s i = None"
  by (simp add: match_at_def REGEX_FENCED_CODEBLOCK_START_def)

lemma first_some_all_None: "(\<And>x. x \<in> set xs \<Longrightarrow> f x = None) \<Longrightarrow> first_some (map f xs) = None"
  by (induction xs) auto

lemma regex_exec_REGEX:
  "regex_exec REGEX_FENCED_CODEBLOCK_START s = map_option snd (match_at REGEX_FENCED_CODEBLOCK_START s 0)"
proof -
  let ?f = "match_at REGEX_FENCED_CODEBLOCK_START s"
  have "first_some (map ?f [1..<Suc (length s)]) = None"
    by (rule first_some_all_None, rule match_at_pos_None) (simp del: upt_Suc)
  moreover have "[0..<Suc (length s)] = 0 # [1..<Suc (length s)]"
    by (simp add: upt_rec del: upt_Suc)
  ultimately have "first_some (map ?f [0..<Suc (length s)]) = ?f 0"
    by (cases "?f 0") (simp_all del: upt_Suc)
  then show ?thesis by (simp only: regex_exec_def)
qed

lemma startsWith_backticks:
  "startsWith s (js ''```'') \<longleftrightarrow> (\<exists>r. s = of_char CHR ''`'' # of_char CHR ''`'' # of_char CHR ''`'' # r)"
proof
  assume "startsWith s (js ''```'')"
  then obtain r where "s = js ''```'' @ r"
    unfolding startsWith_def by (metis append_take_drop_id)
  then show "\<exists>r. s = of_char CHR ''`'' # of_char CHR ''`'' # of_char CHR ''`'' # r"
    by (simp add: js_def)
next
  assume "\<exists>r. s = of_char CHR ''`'' # of_char CHR ''`'' # of_char CHR ''`'' # r"
  then show "startsWith s (js ''```'')" by (auto simp: startsWith_def js_def)
qed

lemma rmatch_Seq_Lit_nonempty:
  "rmatch (Seq (Lit c) X) s (i, g) \<noteq> [] \<Longrightarrow>
     (i < length s \<and> s ! i = c) \<and> rmatch X s (Suc i, g) \<noteq> []"
  by (auto split: if_splits)

lemma REGEX_no_match:
  assumes "\<not> startsWith s (js ''```'')"
  shows "String_match s REGEX_FENCED_CODEBLOCK_START = None"
proof -
  let ?b = "of_char CHR ''`'' :: code_unit"
  have "rmatch REGEX_FENCED_CODEBLOCK_START s (0, no_captures) = []"
  proof (rule ccontr)
    assume ne: "rmatch REGEX_FENCED_CODEBLOCK_START s (0, no_captures) \<noteq> []"
    then obtain T where a0: "rmatch (Seq (Lit ?b) (Seq (Lit ?b) (Seq (Lit ?b) T))) s (0, no_captures) \<noteq> []"
      unfolding REGEX_FENCED_CODEBLOCK_START_def
      by (simp only: rmatch_Seq_Bol simp_thms if_True)
    from rmatch_Seq_Lit_nonempty [OF a0]
    have p0: "0 < length s" "s ! 0 = ?b"
      and a1: "rmatch (Seq (Lit ?b) (Seq (Lit ?b) T)) s (Suc 0, no_captures) \<noteq> []" by blast+
    from rmatch_Seq_Lit_nonempty [OF a1]
    have p1: "Suc 0 < length s" "s ! Suc 0 = ?b"
      and a2: "rmatch (Seq (Lit ?b) T) s (Suc (Suc 0), no_captures) \<noteq> []" by blast+
    from rmatch_Seq_Lit_nonempty [OF a2]
    have p2: "Suc (Suc 0) < length s" "s ! Suc (Suc 0) = ?b" by blast+
    have "s = s ! 0 # drop (Suc 0) s" using p0 by (metis Cons_nth_drop_Suc drop0)
    also have "drop (Suc 0) s = s ! Suc 0 # drop (Suc (Suc 0)) s" using p1 by (metis Cons_nth_drop_Suc)
    also have "drop (Suc (Suc 0)) s = s ! Suc (Suc 0) # drop (Suc (Suc (Suc 0))) s"
      using p2 by (metis Cons_nth_drop_Suc)
    finally have "s = ?b # ?b # ?b # drop (Suc (Suc (Suc 0))) s"
      by (simp only: p0 p1 p2)
    with assms show False using startsWith_backticks by blast
  qed
  then show ?thesis
    by (simp add: String_match_def regex_exec_REGEX match_at_def)
qed

lemma REGEX_match:
  assumes "startsWith s (js ''```'')"
  shows "\<exists>g. String_match s REGEX_FENCED_CODEBLOCK_START = Some g \<and>
             g ''lang'' = header_lang (drop 3 s) \<and> g ''label'' = header_label (drop 3 s)"
proof -
  from assms obtain r where s: "s = of_char CHR ''`'' # of_char CHR ''`'' # of_char CHR ''`'' # r"
    using startsWith_backticks by blast
  then have r: "drop 3 s = r" by simp
  show ?thesis
    using REGEX_rmatch_fenced [of r]
    unfolding String_match_def regex_exec_REGEX match_at_def r s [symmetric]
    by (cases "rmatch REGEX_FENCED_CODEBLOCK_START s (0, no_captures)") simp_all
qed

section \<open>The settings at run time\<close>

lemma typed_ignoreLanguages:
  "property_get (typed_settings st) (js ''ignoreLanguages'') = map_option JString (ignoreLanguages st)"
  by (cases "ignoreLanguages st")
     (simp_all add: typed_settings_def settings_object_def property_get_def js_def)

lemma typed_showLanguageAsLabel:
  "truthy (property_get (typed_settings st) (js ''showLanguageAsLabel'')) = showLanguageAsLabel st"
  by (cases "ignoreLanguages st")
     (simp_all add: typed_settings_def settings_object_def property_get_def js_def)

lemma ignore_list_typed:
  "ignore_list (typed_settings st) =
     Inr (case ignoreLanguages st of None \<Rightarrow> [] | Some s \<Rightarrow> if s = [] then [] else split_nl (trim s))"
  by (cases "ignoreLanguages st") (simp_all add: ignore_list_def typed_ignoreLanguages)

lemma ignore_list_cases:
  "ignore_list settings =
     (if \<not> truthy (property_get settings (js ''ignoreLanguages'')) then Inr []
      else case property_get settings (js ''ignoreLanguages'') of
             Some (JString s) \<Rightarrow> Inr (split_nl (trim s))
           | _ \<Rightarrow> Inl TypeError)"
  by (simp add: ignore_list_def Let_def)

lemma ignore_list_throws:
  "ignore_list settings = Inl e \<Longrightarrow> markdownPostProcessor settings w = Inl e"
  by (simp add: markdownPostProcessor_def)

section \<open>The post processor, once its guards have passed\<close>

lemma array_get_0: "2 \<le> length xs \<Longrightarrow> \<exists>x. array_get xs 0 = Some x"
  by (cases xs) (simp_all add: array_get_def)

lemma array_last_Some: "2 \<le> length xs \<Longrightarrow> \<exists>x. array_last xs = Some x"
  by (cases "rev xs") (auto simp: array_last_def)

lemma String_match_Some_iff:
  "(\<exists>g. String_match l REGEX_FENCED_CODEBLOCK_START = Some g) \<longleftrightarrow> startsWith l (js ''```'')"
  using REGEX_match [of l] REGEX_no_match [of l] by (metis option.distinct(1))

lemma process_passed:
  assumes "ignore_list settings = Inr ignored"
    and "querySelector_pre_code (el w)"
    and "getSectionInfo (ctx w) = Some sec"
    and "2 \<le> length (section_lines sec)"
    and "array_get (section_lines sec) 0 = Some first"
    and "startsWith first (js ''```'')"
    and "array_last (section_lines sec) = Some final"
    and "endsWith final (js ''```'')"
    and "String_match first REGEX_FENCED_CODEBLOCK_START = Some groups"
  shows "markdownPostProcessor settings w =
           (if array_includes ignored (groups ''lang'')
            then Inr (w \<lparr> console := console w @ [js ''ignoring '' @ ToString (groups ''lang'')] \<rparr>)
            else case (if groups ''label'' = None \<and>
                          truthy (property_get settings (js ''showLanguageAsLabel''))
                       then groups ''lang'' else groups ''label'') of
                   None \<Rightarrow> Inr w
                 | Some t \<Rightarrow> Inr (apply_label t (groups ''lang'') w))"
  using assms unfolding markdownPostProcessor_def Let_def
  by (simp add: linorder_not_less [symmetric])

lemma process_guard_failed:
  assumes ig: "ignore_list settings = Inr ignored"
    and "\<not> querySelector_pre_code (el w) \<or> getSectionInfo (ctx w) = None \<or>
     (\<exists>sec. getSectionInfo (ctx w) = Some sec \<and>
        (length (section_lines sec) < 2 \<or>
         (\<exists>first. array_get (section_lines sec) 0 = Some first \<and> \<not> startsWith first (js ''```'')) \<or>
         (\<exists>final. array_last (section_lines sec) = Some final \<and> \<not> endsWith final (js ''```'')) \<or>
         (\<exists>first. array_get (section_lines sec) 0 = Some first \<and>
             String_match first REGEX_FENCED_CODEBLOCK_START = None)))"
  shows "markdownPostProcessor settings w = Inr w"
proof (cases "querySelector_pre_code (el w)")
  case False
  then show ?thesis using ig by (simp add: markdownPostProcessor_def)
next
  case qs: True
  show ?thesis
  proof (cases "getSectionInfo (ctx w)")
    case None
    then show ?thesis using ig by (simp add: markdownPostProcessor_def)
  next
    case (Some sec)
    show ?thesis
    proof (cases "length (section_lines sec) < 2")
      case True
      then show ?thesis using Some ig by (simp add: markdownPostProcessor_def)
    next
      case False
      then have len: "2 \<le> length (section_lines sec)" by simp
      then obtain first final where f: "array_get (section_lines sec) 0 = Some first"
        and l: "array_last (section_lines sec) = Some final"
        using array_get_0 array_last_Some by blast
      from assms(2) qs Some False f l
      have "\<not> startsWith first (js ''```'') \<or> \<not> endsWith final (js ''```'') \<or>
            String_match first REGEX_FENCED_CODEBLOCK_START = None"
        by auto
      then show ?thesis using Some f l ig
        by (auto simp: markdownPostProcessor_def Let_def split: option.splits)
    qed
  qed
qed

lemma process_returns:
  assumes ig: "ignore_list settings = Inr ignored"
  shows "\<exists>w'. markdownPostProcessor settings w = Inr w' \<and>
         ((el w' = el w \<and> ctx w' = ctx w) \<or> (\<exists>t language. w' = apply_label t language w))"
proof (cases "querySelector_pre_code (el w)")
  case False
  then show ?thesis using ig by (simp add: markdownPostProcessor_def)
next
  case qs: True
  show ?thesis
  proof (cases "getSectionInfo (ctx w)")
    case None
    then show ?thesis using ig by (simp add: markdownPostProcessor_def)
  next
    case (Some sec)
    show ?thesis
    proof (cases "length (section_lines sec) < 2")
      case True
      then show ?thesis using Some ig by (simp add: markdownPostProcessor_def)
    next
      case False
      then have len: "2 \<le> length (section_lines sec)" by simp
      then obtain first final where f: "array_get (section_lines sec) 0 = Some first"
        and l: "array_last (section_lines sec) = Some final"
        using array_get_0 array_last_Some by blast
      show ?thesis
      proof (cases "startsWith first (js ''```'') \<and> endsWith final (js ''```'')")
        case False
        then show ?thesis using Some f l ig
          by (auto simp: markdownPostProcessor_def Let_def)
      next
        case True
        then obtain g where g: "String_match first REGEX_FENCED_CODEBLOCK_START = Some g"
          using String_match_Some_iff by blast
        show ?thesis
          using process_passed [OF ig qs Some len f _ l _ g] True
          by (auto split: option.splits)
      qed
    qed
  qed
qed

section \<open>Guards and totality\<close>

text \<open>
  Claim C9. Every line that starts with three backticks matches the header pattern: all
  groups of the pattern are optional. So once the guard on the three backticks has passed,
  the match is not \<^verbatim>\<open>null\<close> and the return on a \<^verbatim>\<open>null\<close> match is never taken.
\<close>

theorem header_regex_always_matches:
  "startsWith l (js ''```'') \<Longrightarrow> String_match l REGEX_FENCED_CODEBLOCK_START \<noteq> None"
  using REGEX_match [of l] by auto

theorem header_regex_always_matches_witness:
  "startsWith (js ''```python'') (js ''```'') \<and>
   String_match (js ''```python'') REGEX_FENCED_CODEBLOCK_START \<noteq> None"
proof -
  have h: "startsWith (js ''```python'') (js ''```'')" by code_simp
  from h header_regex_always_matches [OF h] show ?thesis by simp
qed

text \<open>
  Claim C3. When a guard fails (no \<open>code\<close> element inside a \<open>pre\<close> element, no section
  info, fewer than two lines, a first line that does not start with three backticks, a
  last line that does not end with three backticks, or no match of the header pattern),
  the state is returned as it was: nothing is prepended, no class is added, no data
  attribute is set, nothing is registered with the context. The settings are any settings
  of the declared type.
\<close>

theorem failed_guard_no_mutation:
  assumes "\<not> querySelector_pre_code (el w) \<or> getSectionInfo (ctx w) = None \<or>
     (\<exists>sec. getSectionInfo (ctx w) = Some sec \<and>
        (length (section_lines sec) < 2 \<or>
         (\<exists>first. array_get (section_lines sec) 0 = Some first \<and> \<not> startsWith first (js ''```'')) \<or>
         (\<exists>final. array_last (section_lines sec) = Some final \<and> \<not> endsWith final (js ''```'')) \<or>
         (\<exists>first. array_get (section_lines sec) 0 = Some first \<and>
             String_match first REGEX_FENCED_CODEBLOCK_START = None)))"
  shows "markdownPostProcessor (typed_settings settings) w = Inr w"
  using process_guard_failed [OF ignore_list_typed assms] .

theorem failed_guard_no_mutation_witness:
  "array_get (section_lines \<lparr> section_text = document [''plain'', ''text''], lineStart = 0, lineEnd = 1 \<rparr>) 0
     = Some (js ''plain'') \<and>
   \<not> startsWith (js ''plain'') (js ''```'') \<and>
   markdownPostProcessor (typed_settings DEFAULT_SETTINGS) (render_of rendered_codeblock [''plain'', ''text''] 0 1)
     = Inr (render_of rendered_codeblock [''plain'', ''text''] 0 1)"
proof -
  let ?sec = "\<lparr> section_text = document [''plain'', ''text''], lineStart = 0, lineEnd = 1 \<rparr>"
  let ?w = "render_of rendered_codeblock [''plain'', ''text''] 0 1"
  have a: "getSectionInfo (ctx ?w) = Some ?sec" by code_simp
  have b: "array_get (section_lines ?sec) 0 = Some (js ''plain'')" by code_simp
  have c: "\<not> startsWith (js ''plain'') (js ''```'')" by code_simp
  from a b c have "markdownPostProcessor (typed_settings DEFAULT_SETTINGS) ?w = Inr ?w"
    by (intro failed_guard_no_mutation) blast
  with b c show ?thesis by simp
qed

text \<open>
  Claim C5, as stated, fails: the settings are whatever was persisted, merged over the
  defaults without a check. When the persisted \<open>ignoreLanguages\<close> is the number 5, the
  post processor calls \<^verbatim>\<open>trim\<close> on it before any guard and throws.
\<close>

theorem throws_on_number_setting:
  "markdownPostProcessor (loadSettings (JObject [(js ''ignoreLanguages'', JNumber 5)]))
     (render_of rendered_codeblock [''```python'', ''print(1)'', ''```''] 0 2) = Inl TypeError"
  by code_simp

text \<open>
  Claim C5, amended. When \<open>ignoreLanguages\<close> is unset, falsy or a string (as it is for all
  settings of the declared type), the post processor never throws: for every element and
  every context (with or without section info, whatever the source text and the line
  numbers) it returns a state. The two places where a method is called on an array
  element, \<^verbatim>\<open>lines[0].startsWith\<close> and \<^verbatim>\<open>lines.last().endsWith\<close>, are never reached
  with \<^verbatim>\<open>undefined\<close>. Either the element and the context are returned as they were,
  or the label has been applied.
\<close>

theorem never_throws:
  assumes "\<not> truthy (property_get settings (js ''ignoreLanguages'')) \<or>
           (\<exists>s. property_get settings (js ''ignoreLanguages'') = Some (JString s))"
  shows "\<exists>w'. markdownPostProcessor settings w = Inr w' \<and>
         ((el w' = el w \<and> ctx w' = ctx w) \<or> (\<exists>t language. w' = apply_label t language w))"
proof -
  have "\<exists>ignored. ignore_list settings = Inr ignored"
  proof (cases "truthy (property_get settings (js ''ignoreLanguages''))")
    case False
    then show ?thesis by (simp add: ignore_list_cases)
  next
    case True
    with assms obtain s where "property_get settings (js ''ignoreLanguages'') = Some (JString s)"
      by blast
    then show ?thesis by (simp add: ignore_list_cases)
  qed
  then obtain ignored where "ignore_list settings = Inr ignored" ..
  then show ?thesis by (rule process_returns)
qed

theorem never_throws_witness:
  "property_get (typed_settings DEFAULT_SETTINGS) (js ''ignoreLanguages'')
     = Some (JString (js ''dataview'' @ [0x0A] @ js ''dataviewjs'' @ [0x0A] @ js ''tasks'')) \<and>
   (\<exists>w'. markdownPostProcessor (typed_settings DEFAULT_SETTINGS) (render_of rendered_codeblock [] (- 1) 7) = Inr w' \<and>
         ((el w' = el (render_of rendered_codeblock [] (- 1) 7) \<and>
           ctx w' = ctx (render_of rendered_codeblock [] (- 1) 7)) \<or>
          (\<exists>t language. w' = apply_label t language (render_of rendered_codeblock [] (- 1) 7))))"
proof -
  have h: "property_get (typed_settings DEFAULT_SETTINGS) (js ''ignoreLanguages'')
     = Some (JString (js ''dataview'' @ [0x0A] @ js ''dataviewjs'' @ [0x0A] @ js ''tasks''))"
    by (simp add: typed_ignoreLanguages DEFAULT_SETTINGS_def)
  then have "\<not> truthy (property_get (typed_settings DEFAULT_SETTINGS) (js ''ignoreLanguages'')) \<or>
           (\<exists>s. property_get (typed_settings DEFAULT_SETTINGS) (js ''ignoreLanguages'') = Some (JString s))"
    by blast
  from h never_throws [OF this, of "render_of rendered_codeblock [] (- 1) 7"]
  show ?thesis by blast
qed

section \<open>Captured groups and the label element\<close>

lemma header_lang_Some: "header_lang r = Some l \<Longrightarrow> l \<noteq> [] \<and> l = takeWhile class_lang r"
  by (auto simp: header_lang_def Let_def split: if_splits)

lemma header_label_Some: "header_label r = Some l \<Longrightarrow> l \<noteq> []"
  by (auto simp: header_label_def split: list.splits if_splits)

lemma groups_nonempty:
  assumes "String_match first REGEX_FENCED_CODEBLOCK_START = Some g"
  shows "g ''lang'' \<noteq> Some [] \<and> g ''label'' \<noteq> Some []"
proof -
  from assms have "startsWith first (js ''```'')"
    using String_match_Some_iff by blast
  from REGEX_match [OF this] assms
  have "g ''lang'' = header_lang (drop 3 first)" "g ''label'' = header_label (drop 3 first)"
    by auto
  then show ?thesis using header_lang_Some header_label_Some by metis
qed

lemma map_of_assoc_set: "map_of (assoc_set ds k v) k = Some v"
  by (induction ds) auto

lemma el_apply_label:
  "el (apply_label t language w) =
     HTMLElement (localName (el w))
       (if js ''labeled-codeblock'' \<in> set (classList (el w)) then classList (el w)
        else classList (el w) @ [js ''labeled-codeblock''])
       (assoc_set (dataset (el w)) (js ''language'') (ToString language))
       (ElementNode (HTMLElement (js ''p'') [js ''codeblock-label''] []
                       (if t = [] then [] else [TextNode t])) # childNodes (el w))"
  by (cases "el w") (simp add: apply_label_def create_label_def createElement_def Let_def)

lemma label_text_apply: "t \<noteq> [] \<Longrightarrow> label_text (el (apply_label t language w)) = Some t"
  by (simp add: el_apply_label)

lemma data_language_apply: "data_language (el (apply_label t language w)) = Some (ToString language)"
  by (simp add: el_apply_label data_language_def map_of_assoc_set)

lemma el_apply_label_changed: "el (apply_label t language w) \<noteq> el w"
proof
  assume "el (apply_label t language w) = el w"
  then have "length (childNodes (el (apply_label t language w))) = length (childNodes (el w))"
    by simp
  then show False by (simp add: el_apply_label)
qed

lemma drop3_backticks: "drop 3 (js ''```'' @ r) = r"
  by (simp add: js_def)

lemma startsWith_append: "startsWith (p @ r) p"
  by (simp add: startsWith_def)

lemma not_class_lang_brace: "\<not> class_lang (of_char CHR ''{'')"
  by (simp add: class_lang_def)

lemma not_space_brace: "\<not> is_space (of_char CHR ''{'')"
  by (simp add: is_space_def)

lemma header_spaces_brace:
  assumes "list_all is_space ws"
  shows "takeWhile class_lang (ws @ of_char CHR ''{'' # z) = []"
    and "dropWhile class_lang (ws @ of_char CHR ''{'' # z) = ws @ of_char CHR ''{'' # z"
    and "dropWhile is_space (ws @ of_char CHR ''{'' # z) = of_char CHR ''{'' # z"
proof -
  show a: "takeWhile class_lang (ws @ of_char CHR ''{'' # z) = []"
    using assms by (cases ws) (simp_all add: class_lang_def)
  show "dropWhile class_lang (ws @ of_char CHR ''{'' # z) = ws @ of_char CHR ''{'' # z"
    using a takeWhile_dropWhile_id [of class_lang "ws @ of_char CHR ''{'' # z"] by simp
  show "dropWhile is_space (ws @ of_char CHR ''{'' # z) = of_char CHR ''{'' # z"
    using assms not_space_brace by (simp add: list_all_iff dropWhile_append2)
qed

lemma header_lang_run:
  assumes "list_all class_lang language" and "list_all is_space ws"
  shows "header_lang (language @ ws @ of_char CHR ''{'' # z) =
           (if language = [] then None else Some language)"
  using assms header_spaces_brace(1) [OF assms(2), of z]
  by (simp add: header_lang_def list_all_iff takeWhile_append2)

lemma header_label_run:
  assumes "list_all class_lang language" and "list_all is_space ws"
  shows "header_label (language @ ws @ of_char CHR ''{'' # z) =
           (if takeWhile class_label z \<noteq> [] \<and> dropWhile class_label z \<noteq> []
            then Some (takeWhile class_label z) else None)"
  using assms header_spaces_brace(2,3) [OF assms(2), of z]
  by (simp add: header_label_def list_all_iff dropWhile_append2)

lemma match_header_braces:
  assumes "list_all class_lang language" and "list_all is_space ws"
  shows "\<exists>g. String_match (js ''```'' @ language @ ws @ of_char CHR ''{'' # z)
                REGEX_FENCED_CODEBLOCK_START = Some g \<and>
             g ''lang'' = (if language = [] then None else Some language) \<and>
             g ''label'' = (if takeWhile class_label z \<noteq> [] \<and> dropWhile class_label z \<noteq> []
                            then Some (takeWhile class_label z) else None)"
  using REGEX_match [OF startsWith_append, of "language @ ws @ of_char CHR ''{'' # z"]
        header_lang_run [OF assms] header_label_run [OF assms]
  by (simp only: drop3_backticks)

lemma label_run:
  assumes "of_char CHR ''}'' \<notin> set l"
  shows "takeWhile class_label (l @ of_char CHR ''}'' # rest) = l"
    and "dropWhile class_label (l @ of_char CHR ''}'' # rest) = of_char CHR ''}'' # rest"
proof -
  have all: "\<And>x. x \<in> set l \<Longrightarrow> class_label x"
    using assms by (auto simp: class_label_def)
  have stop: "\<not> class_label (of_char CHR ''}'')"
    by (simp add: class_label_def)
  show "takeWhile class_label (l @ of_char CHR ''}'' # rest) = l"
    using all stop by (simp add: takeWhile_append2)
  show "dropWhile class_label (l @ of_char CHR ''}'' # rest) = of_char CHR ''}'' # rest"
    using all stop by (simp add: dropWhile_append2)
qed

lemma undefined_not_included: "\<not> array_includes xs None"
  by (auto simp: array_includes_def)

text \<open>
  Claim C1. For a block span that passes all guards and whose language is not in the
  ignore list: when the label group is captured, the label is applied with the captured
  text; otherwise, when \<open>showLanguageAsLabel\<close> is set and a language was captured, the
  label is applied with the language; otherwise the state is returned as it was. The
  settings are any settings of the declared type, \<open>ignored\<close> is their ignore list.
\<close>

theorem label_choice:
  assumes "querySelector_pre_code (el w)"
    and "getSectionInfo (ctx w) = Some sec"
    and "2 \<le> length (section_lines sec)"
    and "array_get (section_lines sec) 0 = Some first"
    and "startsWith first (js ''```'')"
    and "array_last (section_lines sec) = Some final"
    and "endsWith final (js ''```'')"
    and "String_match first REGEX_FENCED_CODEBLOCK_START = Some groups"
    and "ignore_list (typed_settings settings) = Inr ignored"
    and "\<not> array_includes ignored (groups ''lang'')"
  shows "\<exists>w'. markdownPostProcessor (typed_settings settings) w = Inr w' \<and>
           (case groups ''label'' of
              Some l \<Rightarrow> w' = apply_label l (groups ''lang'') w \<and> label_text (el w') = Some l
            | None \<Rightarrow>
                (case groups ''lang'' of
                   Some language \<Rightarrow>
                     if showLanguageAsLabel settings
                     then w' = apply_label language (Some language) w \<and>
                          label_text (el w') = Some language
                     else w' = w
                 | None \<Rightarrow> w' = w))"
  using process_passed [OF assms(9) assms(1-8)] assms(10) groups_nonempty [OF assms(8)]
  by (auto simp: label_text_apply typed_showLanguageAsLabel split: option.splits)

theorem label_choice_witness:
  "markdownPostProcessor (typed_settings DEFAULT_SETTINGS)
     (render_of rendered_codeblock [''intro'', ''```python {My Script}'', ''print(1)'', ''```'', ''after''] 1 3)
   = Inr (apply_label (js ''My Script'') (Some (js ''python''))
       (render_of rendered_codeblock [''intro'', ''```python {My Script}'', ''print(1)'', ''```'', ''after''] 1 3)) \<and>
   label_text (el (apply_label (js ''My Script'') (Some (js ''python''))
       (render_of rendered_codeblock [''intro'', ''```python {My Script}'', ''print(1)'', ''```'', ''after''] 1 3)))
   = Some (js ''My Script'')"
proof -
  let ?ls = "[''intro'', ''```python {My Script}'', ''print(1)'', ''```'', ''after'']"
  let ?w = "render_of rendered_codeblock ?ls 1 3"
  let ?sec = "\<lparr> section_text = document ?ls, lineStart = 1, lineEnd = 3 \<rparr>"
  let ?first = "js ''```python {My Script}''"
  let ?g = "the (String_match ?first REGEX_FENCED_CODEBLOCK_START)"
  have h1: "querySelector_pre_code (el ?w)" by code_simp
  have h2: "getSectionInfo (ctx ?w) = Some ?sec" by code_simp
  have h3: "2 \<le> length (section_lines ?sec)" by code_simp
  have h4: "array_get (section_lines ?sec) 0 = Some ?first" by code_simp
  have h5: "startsWith ?first (js ''```'')" by code_simp
  have h6: "array_last (section_lines ?sec) = Some (js ''```'')" by code_simp
  have h7: "endsWith (js ''```'') (js ''```'')" by code_simp
  have h8: "String_match ?first REGEX_FENCED_CODEBLOCK_START = Some ?g"
    using REGEX_match [OF h5] by auto
  have h9: "ignore_list (typed_settings DEFAULT_SETTINGS) =
              Inr [js ''dataview'', js ''dataviewjs'', js ''tasks'']" by code_simp
  have h10: "\<not> array_includes [js ''dataview'', js ''dataviewjs'', js ''tasks''] (?g ''lang'')"
    by code_simp
  have g1: "?g ''label'' = Some (js ''My Script'')" by code_simp
  have g2: "?g ''lang'' = Some (js ''python'')" by code_simp
  from label_choice [OF h1 h2 h3 h4 h5 h6 h7 h8 h9 h10]
  show ?thesis by (simp only: g1 g2 option.case) blast
qed

text \<open>
  Claim C2. When the captured language is an element of the list obtained from
  \<open>ignoreLanguages\<close> by trimming it and splitting it at the line breaks, the element and
  the context are returned as they were, whatever \<open>showLanguageAsLabel\<close> is and whether
  or not the header carries a label.
\<close>

theorem ignored_language_untouched:
  assumes "ignoreLanguages settings = Some ig"
    and "l \<in> set (split_nl (trim ig))"
    and "getSectionInfo (ctx w) = Some sec"
    and "array_get (section_lines sec) 0 = Some first"
    and "String_match first REGEX_FENCED_CODEBLOCK_START = Some groups"
    and "groups ''lang'' = Some l"
  shows "\<exists>w'. markdownPostProcessor (typed_settings settings) w = Inr w' \<and>
               el w' = el w \<and> ctx w' = ctx w"
proof -
  have ne: "l \<noteq> []" using groups_nonempty [OF assms(5)] assms(6) by auto
  have nonempty: "ig \<noteq> []"
  proof
    assume "ig = []"
    with assms(2) have "l = []" by (simp add: trim_def)
    with ne show False by simp
  qed
  with assms(1) have il: "ignore_list (typed_settings settings) = Inr (split_nl (trim ig))"
    by (simp add: ignore_list_typed)
  from assms(2) have inc: "array_includes (split_nl (trim ig)) (groups ''lang'')"
    by (simp add: array_includes_def assms(6))
  have sw: "startsWith first (js ''```'')"
    using assms(5) String_match_Some_iff by blast
  show ?thesis
  proof (cases "querySelector_pre_code (el w) \<and> 2 \<le> length (section_lines sec)")
    case False
    then show ?thesis using assms(3) il
      by (auto simp: markdownPostProcessor_def Let_def)
  next
    case True
    then obtain final where l: "array_last (section_lines sec) = Some final"
      using array_last_Some by blast
    show ?thesis
    proof (cases "endsWith final (js ''```'')")
      case False
      then show ?thesis using assms(3,4) l True sw il
        by (auto simp: markdownPostProcessor_def Let_def)
    next
      case ew: True
      show ?thesis
        using process_passed [OF il _ assms(3) _ assms(4) sw l ew assms(5)] True inc
        by simp
    qed
  qed
qed

theorem ignored_language_untouched_witness:
  "\<exists>w'. markdownPostProcessor (typed_settings DEFAULT_SETTINGS)
          (render_of rendered_codeblock [''```dataview {Books}'', ''TABLE author'', ''```''] 0 2) = Inr w' \<and>
        el w' = el (render_of rendered_codeblock [''```dataview {Books}'', ''TABLE author'', ''```''] 0 2) \<and>
        ctx w' = ctx (render_of rendered_codeblock [''```dataview {Books}'', ''TABLE author'', ''```''] 0 2)"
proof -
  let ?ls = "[''```dataview {Books}'', ''TABLE author'', ''```'']"
  let ?w = "render_of rendered_codeblock ?ls 0 2"
  let ?sec = "\<lparr> section_text = document ?ls, lineStart = 0, lineEnd = 2 \<rparr>"
  let ?first = "js ''```dataview {Books}''"
  let ?g = "the (String_match ?first REGEX_FENCED_CODEBLOCK_START)"
  let ?ig = "js ''dataview'' @ [0x0A] @ js ''dataviewjs'' @ [0x0A] @ js ''tasks''"
  have h1: "ignoreLanguages DEFAULT_SETTINGS = Some ?ig" by (simp add: DEFAULT_SETTINGS_def)
  have h2: "js ''dataview'' \<in> set (split_nl (trim ?ig))" by code_simp
  have h3: "getSectionInfo (ctx ?w) = Some ?sec" by code_simp
  have h4: "array_get (section_lines ?sec) 0 = Some ?first" by code_simp
  have h5: "String_match ?first REGEX_FENCED_CODEBLOCK_START = Some ?g"
    using REGEX_match [OF startsWith_append, of "js ''dataview {Books}''"] by (auto simp: js_def)
  have h6: "?g ''lang'' = Some (js ''dataview'')" by code_simp
  from ignored_language_untouched [OF h1 h2 h3 h4 h5 h6] show ?thesis .
qed

section \<open>Headers with a label directive\<close>

lemma match_header_label:
  assumes "list_all class_lang language" and "list_all is_space ws"
    and "l \<noteq> []" and "of_char CHR ''}'' \<notin> set l"
  shows "\<exists>g. String_match (js ''```'' @ language @ ws @ of_char CHR ''{'' # l @ of_char CHR ''}'' # rest)
                REGEX_FENCED_CODEBLOCK_START = Some g \<and>
             g ''lang'' = (if language = [] then None else Some language) \<and>
             g ''label'' = Some l"
proof -
  let ?z = "l @ of_char CHR ''}'' # rest"
  have "(if takeWhile class_label ?z \<noteq> [] \<and> dropWhile class_label ?z \<noteq> []
         then Some (takeWhile class_label ?z) else None) = Some l"
    using assms(3) by (simp only: label_run [OF assms(4)]) simp
  with match_header_braces [OF assms(1,2), of ?z] show ?thesis by (simp only:)
qed

lemma match_header_empty_braces:
  assumes "list_all class_lang language" and "list_all is_space ws"
  shows "\<exists>g. String_match (js ''```'' @ language @ ws @ js ''{}'' @ rest)
                REGEX_FENCED_CODEBLOCK_START = Some g \<and>
             g ''lang'' = (if language = [] then None else Some language) \<and>
             g ''label'' = None"
proof -
  let ?z = "of_char CHR ''}'' # rest"
  have f: "js ''```'' @ language @ ws @ js ''{}'' @ rest =
           js ''```'' @ language @ ws @ of_char CHR ''{'' # ?z"
    by (simp add: js_def)
  have "(if takeWhile class_label ?z \<noteq> [] \<and> dropWhile class_label ?z \<noteq> []
         then Some (takeWhile class_label ?z) else None) = None"
    by (simp add: class_label_def)
  with match_header_braces [OF assms(1,2), of ?z] show ?thesis by (simp only: f)
qed

text \<open>
  Claim C10. For a block span that passes the guards and whose header has a label in
  braces, not empty, and no language token (as in \<^verbatim>\<open>```{My Label}\<close>): the language
  group is unset, the label is applied all the same, whatever the settings of the declared
  type, and the unset language is still assigned to the language data attribute, which
  then holds its string conversion.
\<close>

theorem label_without_language:
  assumes "querySelector_pre_code (el w)"
    and "getSectionInfo (ctx w) = Some sec"
    and "2 \<le> length (section_lines sec)"
    and "array_get (section_lines sec) 0 =
           Some (js ''```'' @ ws @ of_char CHR ''{'' # l @ of_char CHR ''}'' # rest)"
    and "list_all is_space ws"
    and "l \<noteq> []"
    and "of_char CHR ''}'' \<notin> set l"
    and "array_last (section_lines sec) = Some final"
    and "endsWith final (js ''```'')"
  shows "(\<exists>g. String_match (js ''```'' @ ws @ of_char CHR ''{'' # l @ of_char CHR ''}'' # rest)
                REGEX_FENCED_CODEBLOCK_START = Some g \<and>
              g ''lang'' = None \<and> g ''label'' = Some l) \<and>
         markdownPostProcessor (typed_settings settings) w = Inr (apply_label l None w) \<and>
         label_text (el (apply_label l None w)) = Some l \<and>
         data_language (el (apply_label l None w)) = Some (ToString None)"
proof -
  let ?first = "js ''```'' @ ws @ of_char CHR ''{'' # l @ of_char CHR ''}'' # rest"
  have "list_all class_lang []" by simp
  from match_header_label [OF this assms(5,6,7), of rest]
  obtain g where g: "String_match ?first REGEX_FENCED_CODEBLOCK_START = Some g"
    and lang: "g ''lang'' = None" and label: "g ''label'' = Some l"
    by auto
  have "markdownPostProcessor (typed_settings settings) w = Inr (apply_label l None w)"
    using process_passed [OF ignore_list_typed assms(1-4) startsWith_append assms(8,9) g, of settings]
    by (simp add: lang label undefined_not_included)
  then show ?thesis
    using g lang label label_text_apply [OF assms(6)] data_language_apply by blast
qed

theorem label_without_language_witness:
  "markdownPostProcessor (typed_settings DEFAULT_SETTINGS)
      (render_of rendered_codeblock [''```{My Label}'', ''print(1)'', ''```''] 0 2)
     = Inr (apply_label (js ''My Label'') None
         (render_of rendered_codeblock [''```{My Label}'', ''print(1)'', ''```''] 0 2)) \<and>
   data_language (el (apply_label (js ''My Label'') None
         (render_of rendered_codeblock [''```{My Label}'', ''print(1)'', ''```''] 0 2)))
     = Some (js ''undefined'')"
proof -
  let ?ls = "[''```{My Label}'', ''print(1)'', ''```'']"
  let ?w = "render_of rendered_codeblock ?ls 0 2"
  let ?sec = "\<lparr> section_text = document ?ls, lineStart = 0, lineEnd = 2 \<rparr>"
  have h1: "querySelector_pre_code (el ?w)" by code_simp
  have h2: "getSectionInfo (ctx ?w) = Some ?sec" by code_simp
  have h3: "2 \<le> length (section_lines ?sec)" by code_simp
  have h4: "array_get (section_lines ?sec) 0 =
     Some (js ''```'' @ [] @ of_char CHR ''{'' # js ''My Label'' @ of_char CHR ''}'' # [])" by code_simp
  have h5: "list_all is_space []" by simp
  have h6: "js ''My Label'' \<noteq> []" by (simp add: js_def)
  have h7: "of_char CHR ''}'' \<notin> set (js ''My Label'')" by code_simp
  have h8: "array_last (section_lines ?sec) = Some (js ''```'')" by code_simp
  have h9: "endsWith (js ''```'') (js ''```'')" by code_simp
  from label_without_language [OF h1 h2 h3 h4 h5 h6 h7 h8 h9, of DEFAULT_SETTINGS]
  show ?thesis by (simp add: ToString_def)
qed

text \<open>
  Claim C4, as stated, fails: for the header \<^verbatim>\<open>```js {}\<close> the label group does not
  capture the empty string. The class \<^verbatim>\<open>[^}]+\<close> needs at least one character, so the
  optional group is skipped and the label stays unset.
\<close>

theorem empty_braces_capture_nothing:
  "\<not> (\<exists>g. String_match (js ''```js {}'') REGEX_FENCED_CODEBLOCK_START = Some g \<and> g ''label'' = Some [])"
proof -
  have a: "list_all class_lang (js ''js'')" by code_simp
  have b: "list_all is_space (js '' '')" by code_simp
  have c: "js ''```js {}'' = js ''```'' @ js ''js'' @ js '' '' @ js ''{}'' @ []"
    by (simp add: js_def)
  from match_header_empty_braces [OF a b, of "[]"] show ?thesis
    unfolding c [symmetric] by auto
qed

text \<open>
  Claim C4, amended. For a header whose braces are empty, the label group is unset (it
  is not the empty string), so the test \<^verbatim>\<open>labelText == null\<close> holds and the language
  is the fallback. In a block span that passes the guards and whose captured language is
  not in the ignore list: when \<open>showLanguageAsLabel\<close> is set and a language was captured,
  the label is applied, the label element shows the language token and the data attribute
  records it; otherwise the state is returned as it was. The settings are any settings of
  the declared type, \<open>ignored\<close> is their ignore list.
\<close>

theorem empty_braces_fall_back:
  assumes "querySelector_pre_code (el w)"
    and "getSectionInfo (ctx w) = Some sec"
    and "2 \<le> length (section_lines sec)"
    and "array_get (section_lines sec) 0 = Some (js ''```'' @ language @ ws @ js ''{}'' @ rest)"
    and "list_all class_lang language"
    and "list_all is_space ws"
    and "array_last (section_lines sec) = Some final"
    and "endsWith final (js ''```'')"
    and "ignore_list (typed_settings settings) = Inr ignored"
    and "\<not> array_includes ignored (if language = [] then None else Some language)"
  shows "(\<exists>g. String_match (js ''```'' @ language @ ws @ js ''{}'' @ rest)
                REGEX_FENCED_CODEBLOCK_START = Some g \<and>
              g ''label'' = None \<and>
              g ''lang'' = (if language = [] then None else Some language)) \<and>
         (\<exists>w'. markdownPostProcessor (typed_settings settings) w = Inr w' \<and>
            (if showLanguageAsLabel settings \<and> language \<noteq> []
             then w' = apply_label language (Some language) w \<and>
                  label_text (el w') = Some language \<and>
                  data_language (el w') = Some language
             else w' = w))"
proof -
  let ?first = "js ''```'' @ language @ ws @ js ''{}'' @ rest"
  from match_header_empty_braces [OF assms(5,6), of rest]
  obtain g where g: "String_match ?first REGEX_FENCED_CODEBLOCK_START = Some g"
    and lang: "g ''lang'' = (if language = [] then None else Some language)"
    and label: "g ''label'' = None"
    by blast
  have run: "markdownPostProcessor (typed_settings settings) w =
           Inr (if showLanguageAsLabel settings \<and> language \<noteq> []
                then apply_label language (Some language) w else w)"
    using process_passed [OF assms(9) assms(1-4) startsWith_append assms(7,8) g] assms(10)
    by (simp add: lang label typed_showLanguageAsLabel)
  have shown: "label_text (el (apply_label language (Some language) w)) = Some language \<and>
               data_language (el (apply_label language (Some language) w)) = Some language"
    if "language \<noteq> []"
    using that by (simp add: label_text_apply data_language_apply ToString_def)
  show ?thesis using g lang label run shown by auto
qed

theorem empty_braces_fall_back_witness:
  "markdownPostProcessor (typed_settings DEFAULT_SETTINGS)
      (render_of rendered_codeblock [''```js {}'', ''print(1)'', ''```''] 0 2)
     = Inr (apply_label (js ''js'') (Some (js ''js''))
         (render_of rendered_codeblock [''```js {}'', ''print(1)'', ''```''] 0 2)) \<and>
   label_text (el (apply_label (js ''js'') (Some (js ''js''))
         (render_of rendered_codeblock [''```js {}'', ''print(1)'', ''```''] 0 2))) = Some (js ''js'') \<and>
   data_language (el (apply_label (js ''js'') (Some (js ''js''))
         (render_of rendered_codeblock [''```js {}'', ''print(1)'', ''```''] 0 2))) = Some (js ''js'')"
proof -
  let ?ls = "[''```js {}'', ''print(1)'', ''```'']"
  let ?w = "render_of rendered_codeblock ?ls 0 2"
  let ?sec = "\<lparr> section_text = document ?ls, lineStart = 0, lineEnd = 2 \<rparr>"
  have h1: "querySelector_pre_code (el ?w)" by code_simp
  have h2: "getSectionInfo (ctx ?w) = Some ?sec" by code_simp
  have h3: "2 \<le> length (section_lines ?sec)" by code_simp
  have h4: "array_get (section_lines ?sec) 0 = Some (js ''```'' @ js ''js'' @ js '' '' @ js ''{}'' @ [])"
    by code_simp
  have h5: "list_all class_lang (js ''js'')" by code_simp
  have h6: "list_all is_space (js '' '')" by code_simp
  have h7: "array_last (section_lines ?sec) = Some (js ''```'')" by code_simp
  have h8: "endsWith (js ''```'') (js ''```'')" by code_simp
  have h9: "ignore_list (typed_settings DEFAULT_SETTINGS) =
              Inr [js ''dataview'', js ''dataviewjs'', js ''tasks'']" by code_simp
  have h10: "\<not> array_includes [js ''dataview'', js ''dataviewjs'', js ''tasks'']
                (if js ''js'' = [] then None else Some (js ''js''))" by code_simp
  have t: "showLanguageAsLabel DEFAULT_SETTINGS \<and> js ''js'' \<noteq> []" by code_simp
  from empty_braces_fall_back [OF h1 h2 h3 h4 h5 h6 h7 h8 h9 h10]
  show ?thesis using t by auto
qed

text \<open>
  Claim C6 at the header \<^verbatim>\<open>```a^b\<close>: the captured language is \<open>a\<close>, because the class
  \<^verbatim>\<open>[^\s^{]\<close> also excludes the caret, while the longest run of characters that are
  neither white space nor an opening brace is \<open>a^b\<close>.
\<close>

theorem caret_ends_language:
  "\<exists>g. String_match (js ''```a^b'') REGEX_FENCED_CODEBLOCK_START = Some g \<and>
       g ''lang'' = Some (js ''a'') \<and>
       takeWhile (\<lambda>c. \<not> is_space c \<and> c \<noteq> of_char CHR ''{'') (js ''a^b'') = js ''a^b''"
proof -
  have s: "startsWith (js ''```a^b'') (js ''```'')" by code_simp
  have l: "header_lang (drop 3 (js ''```a^b'')) = Some (js ''a'')" by code_simp
  have m: "takeWhile (\<lambda>c. \<not> is_space c \<and> c \<noteq> of_char CHR ''{'') (js ''a^b'') = js ''a^b''"
    by code_simp
  from REGEX_match [OF s] l m show ?thesis by auto
qed

section \<open>The decision as a function of the span text and the settings\<close>

lemma slice_map: "slice (map f xs) a b = map f (slice xs a b)"
  by (simp add: slice_def Let_def take_map drop_map)

lemma section_lines_span: "section_lines sec = map trim (span_text sec)"
  by (simp add: section_lines_def span_text_def slice_map)

lemma observed_unchanged: "el w' = el w \<Longrightarrow> observed_decision w (Inr w') = None"
  by (simp add: observed_decision_def)

lemma observed_apply_label:
  "observed_decision w (Inr (apply_label t language w)) =
     Some (if t = [] then None else Some t, Some (ToString language))"
  by (simp add: observed_decision_def el_apply_label_changed data_language_apply)
     (simp add: el_apply_label)

lemma observed_thrown: "observed_decision w (Inl e) = None"
  by (simp add: observed_decision_def)

lemma observed_same_lines:
  assumes "querySelector_pre_code (el w1)" and "querySelector_pre_code (el w2)"
    and "getSectionInfo (ctx w1) = Some sec1" and "getSectionInfo (ctx w2) = Some sec2"
    and "section_lines sec1 = section_lines sec2"
    and ig: "ignore_list settings = Inr ignored"
  shows "observed_decision w1 (markdownPostProcessor settings w1) =
         observed_decision w2 (markdownPostProcessor settings w2)"
proof (cases "length (section_lines sec1) < 2")
  case True
  then show ?thesis using assms
    by (simp add: markdownPostProcessor_def observed_unchanged)
next
  case False
  then have len: "2 \<le> length (section_lines sec1)" by simp
  then obtain first final where f: "array_get (section_lines sec1) 0 = Some first"
    and l: "array_last (section_lines sec1) = Some final"
    using array_get_0 array_last_Some by blast
  show ?thesis
  proof (cases "startsWith first (js ''```'') \<and> endsWith final (js ''```'')")
    case False
    then show ?thesis using assms f l
      by (auto simp: markdownPostProcessor_def Let_def observed_unchanged)
  next
    case True
    then obtain g where g: "String_match first REGEX_FENCED_CODEBLOCK_START = Some g"
      using String_match_Some_iff by blast
    have r1: "markdownPostProcessor settings w1 =
           (if array_includes ignored (g ''lang'')
            then Inr (w1 \<lparr> console := console w1 @ [js ''ignoring '' @ ToString (g ''lang'')] \<rparr>)
            else case (if g ''label'' = None \<and>
                          truthy (property_get settings (js ''showLanguageAsLabel''))
                       then g ''lang'' else g ''label'') of
                   None \<Rightarrow> Inr w1
                 | Some t \<Rightarrow> Inr (apply_label t (g ''lang'') w1))"
      using process_passed [OF ig assms(1,3) len f _ l _ g] True by blast
    have r2: "markdownPostProcessor settings w2 =
           (if array_includes ignored (g ''lang'')
            then Inr (w2 \<lparr> console := console w2 @ [js ''ignoring '' @ ToString (g ''lang'')] \<rparr>)
            else case (if g ''label'' = None \<and>
                          truthy (property_get settings (js ''showLanguageAsLabel''))
                       then g ''lang'' else g ''label'') of
                   None \<Rightarrow> Inr w2
                 | Some t \<Rightarrow> Inr (apply_label t (g ''lang'') w2))"
      using process_passed [OF ig assms(2,4), of first final g] len f l g True
      unfolding assms(5) by blast
    show ?thesis unfolding r1 r2
      by (simp add: observed_unchanged observed_apply_label split: option.split)
  qed
qed

text \<open>
  Claim C7. The decision that a run shows (whether a label is applied, its text, and the
  recorded language) is determined by the settings and the text of the block span: two
  runs with the same settings on rendered outputs that agree on the presence of a code
  block and whose spans have the same lines show the same decision, whatever else the
  elements, the contexts and the documents around the spans contain. The settings are any
  settings object.
\<close>

theorem decision_from_span_and_settings:
  assumes "querySelector_pre_code (el w1) = querySelector_pre_code (el w2)"
    and "map_option span_text (getSectionInfo (ctx w1)) = map_option span_text (getSectionInfo (ctx w2))"
  shows "observed_decision w1 (markdownPostProcessor settings w1) =
         observed_decision w2 (markdownPostProcessor settings w2)"
proof (cases "ignore_list settings")
  case (Inl e)
  then show ?thesis by (simp add: ignore_list_throws observed_thrown)
next
  case ig: (Inr ignored)
  show ?thesis
  proof (cases "querySelector_pre_code (el w1)")
    case False
    with assms(1) ig show ?thesis
      by (simp add: markdownPostProcessor_def observed_unchanged)
  next
    case True
    with assms(1) have q2: "querySelector_pre_code (el w2)" by simp
    show ?thesis
    proof (cases "getSectionInfo (ctx w1)")
      case None
      with assms(2) have "getSectionInfo (ctx w2) = None" by simp
      with None ig show ?thesis
        by (simp add: markdownPostProcessor_def observed_unchanged)
    next
      case (Some sec1)
      with assms(2) obtain sec2 where s2: "getSectionInfo (ctx w2) = Some sec2"
        and "span_text sec1 = span_text sec2"
        by (cases "getSectionInfo (ctx w2)") auto
      then have "section_lines sec1 = section_lines sec2"
        by (simp add: section_lines_span)
      with True q2 Some s2 show ?thesis using ig by (rule observed_same_lines)
    qed
  qed
qed

theorem decision_from_span_and_settings_witness:
  "observed_decision
      (render_of rendered_codeblock [''intro'', ''```python'', ''print(1)'', ''```''] 1 3)
      (markdownPostProcessor (typed_settings DEFAULT_SETTINGS)
         (render_of rendered_codeblock [''intro'', ''```python'', ''print(1)'', ''```''] 1 3))
     = Some (Some (js ''python''), Some (js ''python'')) \<and>
   observed_decision
      (render_of (HTMLElement (js ''pre'') [js ''x''] [] [ElementNode (HTMLElement (js ''code'') [] [] [])])
         [''```python'', ''print(1)'', ''```'', ''the end''] 0 2)
      (markdownPostProcessor (typed_settings DEFAULT_SETTINGS)
         (render_of (HTMLElement (js ''pre'') [js ''x''] [] [ElementNode (HTMLElement (js ''code'') [] [] [])])
            [''```python'', ''print(1)'', ''```'', ''the end''] 0 2))
     = Some (Some (js ''python''), Some (js ''python''))"
proof -
  let ?w1 = "render_of rendered_codeblock [''intro'', ''```python'', ''print(1)'', ''```''] 1 3"
  let ?w2 = "render_of (HTMLElement (js ''pre'') [js ''x''] [] [ElementNode (HTMLElement (js ''code'') [] [] [])])
         [''```python'', ''print(1)'', ''```'', ''the end''] 0 2"
  have h1: "querySelector_pre_code (el ?w1) = querySelector_pre_code (el ?w2)" by code_simp
  have h2: "map_option span_text (getSectionInfo (ctx ?w1)) = map_option span_text (getSectionInfo (ctx ?w2))"
    by code_simp
  have v: "observed_decision ?w1 (markdownPostProcessor (typed_settings DEFAULT_SETTINGS) ?w1)
             = Some (Some (js ''python''), Some (js ''python''))" by code_simp
  from decision_from_span_and_settings [OF h1 h2, of "typed_settings DEFAULT_SETTINGS"] v
  show ?thesis by simp
qed

section \<open>Loading the settings\<close>

lemma own_property_set:
  "k \<noteq> js ''__proto__'' \<Longrightarrow>
     own (property_set obj k' v) k = (if k' = k then Some v else own obj k)"
  by (auto simp: property_set_def split: js_value.splits)

lemma own_fold_property_set:
  "k \<noteq> js ''__proto__'' \<Longrightarrow>
     own (fold (\<lambda>(k, v) obj. property_set obj k v) kvs obj) k =
       (case map_of (rev kvs) k of None \<Rightarrow> own obj k | Some v \<Rightarrow> Some v)"
  by (induction kvs arbitrary: obj) (auto simp: own_property_set map_add_def split: option.splits)

lemma loadSettings_lookup:
  "k \<noteq> js ''__proto__'' \<Longrightarrow>
   own (loadSettings data) k =
     (case map_of (rev (own_properties data)) k of
        None \<Rightarrow> map_of (rev (own_properties (settings_object DEFAULT_SETTINGS))) k
      | Some v \<Rightarrow> Some v)"
  by (simp add: loadSettings_def Object_assign_def own_fold_property_set empty_object_def
           split: option.splits)

lemma absent_key: "k \<notin> fst ` set kvs \<Longrightarrow> map_of (rev kvs) k = None"
  by (simp add: map_of_eq_None_iff)

text \<open>
  Claim C8. Whatever value was persisted (\<^verbatim>\<open>null\<close>, an object with or without the
  two keys, or any other value), the settings object after loading has both fields as
  its own properties, and a field that the persisted value does not have holds its
  default: the three ignored languages, and \<^verbatim>\<open>true\<close>.
\<close>

theorem loadSettings_fields_present:
  "own (loadSettings data) (js ''ignoreLanguages'') \<noteq> None \<and>
   own (loadSettings data) (js ''showLanguageAsLabel'') \<noteq> None \<and>
   (js ''ignoreLanguages'' \<notin> fst ` set (own_properties data) \<longrightarrow>
      own (loadSettings data) (js ''ignoreLanguages'') =
        Some (JString (js ''dataview'' @ [0x0A] @ js ''dataviewjs'' @ [0x0A] @ js ''tasks''))) \<and>
   (js ''showLanguageAsLabel'' \<notin> fst ` set (own_properties data) \<longrightarrow>
      own (loadSettings data) (js ''showLanguageAsLabel'') = Some (JBool True))"
proof -
  have n1: "js ''ignoreLanguages'' \<noteq> js ''__proto__''" by (simp add: js_def)
  have n2: "js ''showLanguageAsLabel'' \<noteq> js ''__proto__''" by (simp add: js_def)
  have d1: "map_of (rev (own_properties (settings_object DEFAULT_SETTINGS))) (js ''ignoreLanguages'')
        = Some (JString (js ''dataview'' @ [0x0A] @ js ''dataviewjs'' @ [0x0A] @ js ''tasks''))"
    by (simp add: settings_object_def DEFAULT_SETTINGS_def js_def)
  have d2: "map_of (rev (own_properties (settings_object DEFAULT_SETTINGS))) (js ''showLanguageAsLabel'')
        = Some (JBool True)"
    by (simp add: settings_object_def DEFAULT_SETTINGS_def js_def)
  show ?thesis
    by (simp add: loadSettings_lookup [OF n1] loadSettings_lookup [OF n2] d1 d2 absent_key
             split: option.split)
qed

theorem loadSettings_fields_present_witness:
  "own (loadSettings JNull) (js ''ignoreLanguages'') =
     Some (JString (js ''dataview'' @ [0x0A] @ js ''dataviewjs'' @ [0x0A] @ js ''tasks'')) \<and>
   own (loadSettings JNull) (js ''showLanguageAsLabel'') = Some (JBool True) \<and>
   own (loadSettings (JObject [(js ''showLanguageAsLabel'', JBool False)])) (js ''ignoreLanguages'') =
     Some (JString (js ''dataview'' @ [0x0A] @ js ''dataviewjs'' @ [0x0A] @ js ''tasks''))"
proof -
  have a: "js ''ignoreLanguages'' \<notin> fst ` set (own_properties JNull)" by simp
  have b: "js ''showLanguageAsLabel'' \<notin> fst ` set (own_properties JNull)" by simp
  have c: "js ''ignoreLanguages'' \<notin> fst ` set (own_properties (JObject [(js ''showLanguageAsLabel'', JBool False)]))"
    by (simp add: js_def)
  from loadSettings_fields_present [of JNull]
       loadSettings_fields_present [of "JObject [(js ''showLanguageAsLabel'', JBool False)]"] a b c
  show ?thesis by blast
qed

end
